theory Spec2Isabelle
  imports Complex_Main "HOL-Library.Multiset"
begin

section \<open>Python values and library calls used by app.py\<close>

text \<open>
  A Python \<open>str\<close> is modelled as a \<open>string\<close> whose characters are the code points
  below 256; \<open>bytes\<close> are lists of 8-bit characters as well. A Python \<open>float\<close> is
  modelled by the real number it denotes, and every float operation rounds its exact
  result to the nearest double (see \<open>fl\<close> below).
\<close>

type_synonym bytes = "char list"

datatype error =
    FileNotFoundError string
  | UnidentifiedImageError
  | FileDataError
  | ValueError
  | KeyError string

text \<open>
  The errors below Python's \<open>OSError\<close>: \<open>FileNotFoundError\<close> and Pillow's
  \<open>UnidentifiedImageError\<close>.
\<close>

fun is_io_error :: "error \<Rightarrow> bool" where
  "is_io_error (FileNotFoundError p) = True"
| "is_io_error UnidentifiedImageError = True"
| "is_io_error e = False"

subsection \<open>Strings\<close>

text \<open>\<open>str.isspace\<close> on one character, for the code points below 256.\<close>

definition py_isspace :: "char \<Rightarrow> bool" where
  "py_isspace c =
     (let n = (of_char c :: nat)
      in (9 \<le> n \<and> n \<le> 13) \<or> (28 \<le> n \<and> n \<le> 32) \<or> n = 133 \<or> n = 160)"

text \<open>\<open>s.strip()\<close>: leading and trailing whitespace removed.\<close>

definition py_strip :: "string \<Rightarrow> string" where
  "py_strip s = rev (dropWhile py_isspace (rev (dropWhile py_isspace s)))"

text \<open>\<open>str.lower\<close> on one character: A-Z and the Latin-1 capitals move up by 32.\<close>

definition lower_char :: "char \<Rightarrow> char" where
  "lower_char c =
     (let n = (of_char c :: nat)
      in if (65 \<le> n \<and> n \<le> 90) \<or> (192 \<le> n \<and> n \<le> 222 \<and> n \<noteq> 215)
         then char_of (n + 32) else c)"

definition py_lower :: "string \<Rightarrow> string" where
  "py_lower s = map lower_char s"

definition endswith :: "string \<Rightarrow> string \<Rightarrow> bool" where
  "endswith s suf =
     (length suf \<le> length s \<and> drop (length s - length suf) s = suf)"

text \<open>\<open>sep.join(parts)\<close>.\<close>

fun py_join :: "string \<Rightarrow> string list \<Rightarrow> string" where
  "py_join sep [] = []"
| "py_join sep [x] = x"
| "py_join sep (x # y # ys) = x @ sep @ py_join sep (y # ys)"

text \<open>\<open>os.path.join(a, b)\<close> on a POSIX system.\<close>

definition os_path_join :: "string \<Rightarrow> string \<Rightarrow> string" where
  "os_path_join a b =
     (if b \<noteq> [] \<and> hd b = CHR ''/'' then b
      else if a = [] \<or> last a = CHR ''/'' then a @ b
      else a @ ''/'' @ b)"

text \<open>\<open>d.get(k, default)\<close> on a dict.\<close>

definition dict_get :: "('k \<rightharpoonup> 'v) \<Rightarrow> 'k \<Rightarrow> 'v \<Rightarrow> 'v" where
  "dict_get d k dflt = (case d k of None \<Rightarrow> dflt | Some v \<Rightarrow> v)"

subsection \<open>Numbers\<close>

definition round_half_even :: "real \<Rightarrow> int" where
  "round_half_even y =
     (let f = \<lfloor>y\<rfloor>; d = y - of_int f
      in if d < 1 / 2 then f
         else if 1 / 2 < d then f + 1
         else if even f then f else f + 1)"

text \<open>The number of binary digits of a natural number.\<close>

fun bits :: "nat \<Rightarrow> nat" where
  "bits n = (if n = 0 then 0 else Suc (bits (n div 2)))"

declare bits.simps [simp del]

text \<open>
  The scaling that leaves a 53-bit significand: \<open>2^52 \<le> |x| * 2^k < 2^53\<close> for
  \<open>k = kexp x\<close>, and \<open>k\<close> is at most 1074, the grid of the subnormal doubles.
\<close>

definition kexp :: "real \<Rightarrow> int" where
  "kexp x =
     (if 1 \<le> \<bar>x\<bar> then 53 - int (bits (nat \<lfloor>\<bar>x\<bar>\<rfloor>))
      else min 1074 (52 + int (bits (nat (\<lceil>1 / \<bar>x\<bar>\<rceil> - 1)))))"

text \<open>
  \<open>fl x\<close> is the double nearest to the real \<open>x\<close>, ties to the even significand
  (IEEE 754 binary64, round to nearest even). The float product \<open>a * b\<close> of Python
  is \<open>fl (a * b)\<close>, the float quotient \<open>a / b\<close> is \<open>fl (a / b)\<close>. Overflow to
  infinity (beyond about \<open>1.8e308\<close>) is not modelled.
\<close>

definition fl :: "real \<Rightarrow> real" where
  "fl x =
     (if x = 0 then 0
      else of_int (round_half_even (x * 2 powi kexp x)) / 2 powi kexp x)"

definition is_double :: "real \<Rightarrow> bool" where
  "is_double x = (fl x = x)"

text \<open>
  \<open>round(x, ndigits)\<close> for a float \<open>x\<close> and \<open>ndigits \<ge> 0\<close>: CPython takes the
  decimal with \<open>ndigits\<close> places nearest to the exact value of \<open>x\<close>, ties to even,
  and returns the double nearest to that decimal. The model keeps the decimal, which
  is also what \<open>repr\<close> prints for the result.
\<close>

definition py_round :: "real \<Rightarrow> nat \<Rightarrow> real" where
  "py_round x ndigits = of_int (round_half_even (x * 10 ^ ndigits)) / 10 ^ ndigits"

text \<open>
  \<open>sorted(xs, key=key, reverse=True)\<close>: CPython reverses the list, sorts it with
  its stable ascending sort, and reverses the result.
\<close>

definition py_sorted_reverse :: "('a \<Rightarrow> 'k::linorder) \<Rightarrow> 'a list \<Rightarrow> 'a list" where
  "py_sorted_reverse key xs = rev (sort_key key (rev xs))"

subsection \<open>Images (PIL and numpy)\<close>

text \<open>
  The image library is not part of the repository. An image is its mode, its size
  (width, height) and its band-interleaved sample buffer; an array is its shape and
  its buffer. The modes are those a PNG file opens in.
\<close>

datatype mode = Mode_1 | Mode_L | Mode_P | Mode_I | Mode_LA | Mode_RGB | Mode_RGBA

fun bands :: "mode \<Rightarrow> nat" where
  "bands Mode_LA = 2"
| "bands Mode_RGB = 3"
| "bands Mode_RGBA = 4"
| "bands m = 1"

record image =
  mode :: mode
  size_wh :: "nat \<times> nat"
  samples :: "nat list"

record ndarray =
  dims :: "nat list"
  buf :: "nat list"

text \<open>\<open>np.array(img)\<close>: two axes for a single-band image, three otherwise.\<close>

definition np_array :: "image \<Rightarrow> ndarray" where
  "np_array img =
     (let (w, h) = size_wh img
      in \<lparr>dims = (if bands (mode img) = 1 then [h, w] else [h, w, bands (mode img)]),
          buf = samples img\<rparr>)"

definition ndim :: "ndarray \<Rightarrow> nat" where
  "ndim a = length (dims a)"

subsection \<open>The external collaborators\<close>

datatype page = Page (get_text: string)

record wc_args =
  kw_width :: int
  kw_height :: int
  kw_background_color :: string
  kw_max_words :: int
  kw_colormap :: string
  kw_mask :: "ndarray option"
  kw_font_path :: "string option"

text \<open>
  What the script reads of a generated \<open>WordCloud\<close>: the mapping \<open>words_\<close>
  (the field \<open>words\<close>) in its iteration order, with floats as weights, the raster
  of \<open>to_image()\<close>, and the method \<open>process_text\<close>.
\<close>

record wordcloud =
  words :: "(string \<times> real) list"
  to_image :: image
  process_text :: "string \<Rightarrow> (string \<rightharpoonup> int)"

text \<open>
  The file system and the libraries, as the script calls them: \<open>os.listdir\<close>, the
  content of a file by path, PIL's decoder, PIL's conversion of a sample buffer to
  luminance, \<open>fitz.open\<close> on a byte stream (the pages of the document), and
  \<open>WordCloud(**kw).generate(text)\<close>. The script passes no \<open>random_state\<close> to
  \<open>WordCloud\<close>, so the renderer's random generator starts every run from a state
  of its own: \<open>random_state\<close> is that state in this run, and \<open>generate\<close> takes it
  as its second argument.
\<close>

record env =
  listdir :: "string \<Rightarrow> error + string list"
  files :: "string \<rightharpoonup> bytes"
  image_decode :: "bytes \<Rightarrow> image option"
  luma :: "mode \<Rightarrow> nat list \<Rightarrow> nat list"
  fitz_open :: "bytes \<Rightarrow> error + page list"
  random_state :: nat
  generate :: "wc_args \<Rightarrow> nat \<Rightarrow> string \<Rightarrow> error + wordcloud"

text \<open>\<open>Image.open(stream)\<close> and \<open>Image.open(path)\<close>.\<close>

definition Image_open_stream :: "env \<Rightarrow> bytes \<Rightarrow> error + image" where
  "Image_open_stream e b =
     (case image_decode e b of None \<Rightarrow> Inl UnidentifiedImageError | Some img \<Rightarrow> Inr img)"

definition Image_open_path :: "env \<Rightarrow> string \<Rightarrow> error + image" where
  "Image_open_path e p =
     (case files e p of None \<Rightarrow> Inl (FileNotFoundError p) | Some b \<Rightarrow> Image_open_stream e b)"

text \<open>\<open>img.convert("L")\<close>: a single-band image of the same size.\<close>

definition convert_L :: "env \<Rightarrow> image \<Rightarrow> image" where
  "convert_L e img = img\<lparr>mode := Mode_L, samples := luma e (mode img) (samples img)\<rparr>"

section \<open>The script\<close>

subsection \<open>Sidebar values and the mask loader\<close>

record inputs =
  bg_color :: string
  max_words :: int
  width :: int
  height :: int
  colormap :: string
  font_choice :: string
  shape :: string
  uploaded_mask :: "bytes option"
  input_method :: string
  text_area :: string
  uploaded_pdf :: "bytes option"
  button :: bool

definition font_path_of :: "string \<Rightarrow> string option" where
  "font_path_of choice =
     (if choice \<noteq> ''Default'' then Some (os_path_join ''fonts'' choice) else None)"

text \<open>The file of a built-in shape: \<open>f"masks/{shape.lower()}.png"\<close>.\<close>

definition mask_path :: "string \<Rightarrow> string" where
  "mask_path shp = ''masks/'' @ py_lower shp @ ''.png''"

text \<open>\<open>load_mask\<close> reads the globals \<open>uploaded_mask\<close> and \<open>shape\<close>.\<close>

definition load_mask :: "env \<Rightarrow> bytes option \<Rightarrow> string \<Rightarrow> error + ndarray option" where
  "load_mask e up shp =
     (case up of
        Some f \<Rightarrow>
          (case Image_open_stream e f of
             Inl err \<Rightarrow> Inl err
           | Inr img \<Rightarrow> Inr (Some (np_array (convert_L e img))))
      | None \<Rightarrow>
          if shp \<noteq> ''None''
          then (let path = mask_path shp
                in case Image_open_path e path of
                     Inl err \<Rightarrow> Inl err
                   | Inr img \<Rightarrow> Inr (Some (np_array img)))
          else Inr None)"

subsection \<open>The frequency table\<close>

record row =
  Word :: string
  Raw_Count :: int
  Normalized_Frequency :: real

definition freq_row :: "(string \<rightharpoonup> int) \<Rightarrow> string \<times> real \<Rightarrow> row" where
  "freq_row raw_counts item =
     (case item of (word, freq) \<Rightarrow>
        \<lparr>Word = word,
         Raw_Count = dict_get raw_counts word 0,
         Normalized_Frequency = py_round (fl (freq * 100)) 2\<rparr>)"

text \<open>The list comprehension over \<open>normalized_freqs.items()\<close>.\<close>

definition freq_rows :: "(string \<times> real) list \<Rightarrow> (string \<rightharpoonup> int) \<Rightarrow> row list" where
  "freq_rows normalized_freqs raw_counts = map (freq_row raw_counts) normalized_freqs"

text \<open>The sort on the raw count and the slice \<open>[:10]\<close>.\<close>

definition freq_data :: "(string \<times> real) list \<Rightarrow> (string \<rightharpoonup> int) \<Rightarrow> row list" where
  "freq_data normalized_freqs raw_counts =
     take 10 (py_sorted_reverse Raw_Count (freq_rows normalized_freqs raw_counts))"

subsection \<open>CSV export (pandas on top of Python's csv writer)\<close>

datatype cell = StrCell string | IntCell int | FloatCell real

record dataframe =
  columns :: "string list"
  cells :: "cell list list"

text \<open>
  \<open>pd.DataFrame(freq_data)\<close> for a list of dicts that all have the same three keys;
  an empty list gives a frame without columns.
\<close>

definition DataFrame :: "row list \<Rightarrow> dataframe" where
  "DataFrame rs =
     \<lparr>columns = (if rs = [] then [] else [''Word'', ''Raw Count'', ''Normalized Frequency (%)'']),
      cells = map (\<lambda>r. [StrCell (Word r), IntCell (Raw_Count r), FloatCell (Normalized_Frequency r)]) rs\<rparr>"

definition digit_char :: "nat \<Rightarrow> char" where
  "digit_char d = char_of (48 + d)"

fun str_nat :: "nat \<Rightarrow> string" where
  "str_nat n = (if n < 10 then [digit_char n] else str_nat (n div 10) @ [digit_char (n mod 10)])"

declare str_nat.simps [simp del]

definition str_int :: "int \<Rightarrow> string" where
  "str_int i = (if i < 0 then CHR ''-'' # str_nat (nat (- i)) else str_nat (nat i))"

text \<open>
  \<open>repr\<close> of a float that is a whole number of hundredths and below \<open>10^16\<close> in
  size: the integer part, a point, and one or two decimals (\<open>h\<close> is the number of
  hundredths).
\<close>

definition frac_digits :: "nat \<Rightarrow> string" where
  "frac_digits h =
     (if h mod 10 = 0 then [digit_char (h mod 100 div 10)]
      else [digit_char (h mod 100 div 10), digit_char (h mod 10)])"

definition float_repr :: "real \<Rightarrow> string" where
  "float_repr v =
     (let h = nat \<lfloor>\<bar>v\<bar> * 100\<rfloor>
      in (if v < 0 then ''-'' else []) @ str_nat (h div 100) @ ''.'' @ frac_digits h)"

fun cell_text :: "cell \<Rightarrow> string" where
  "cell_text (StrCell s) = s"
| "cell_text (IntCell i) = str_int i"
| "cell_text (FloatCell v) = float_repr v"

text \<open>The three fields of a table row as the writer receives them.\<close>

definition row_cells :: "row \<Rightarrow> string list" where
  "row_cells r = [Word r, str_int (Raw_Count r), float_repr (Normalized_Frequency r)]"

text \<open>
  The csv writer with minimal quoting: a field is quoted when it holds the delimiter,
  the quote character or a line break; a quote inside is doubled.
\<close>

definition csv_special :: "char \<Rightarrow> bool" where
  "csv_special c = (c = CHR '','' \<or> c = CHR 0x22 \<or> c = CHR 0x0A \<or> c = CHR 0x0D)"

fun csv_escape :: "string \<Rightarrow> string" where
  "csv_escape [] = []"
| "csv_escape (c # cs) = (if c = CHR 0x22 then [c, c] else [c]) @ csv_escape cs"

definition csv_field :: "string \<Rightarrow> string" where
  "csv_field s = (if list_ex csv_special s then [CHR 0x22] @ csv_escape s @ [CHR 0x22] else s)"

definition writerow :: "string list \<Rightarrow> string" where
  "writerow flds =
     (if flds = [[]] then [CHR 0x22, CHR 0x22] else py_join '','' (map csv_field flds))
     @ [CHR 0x0A]"

text \<open>
  \<open>df.to_csv(index=False)\<close>: the header row, then one row per record, each ended
  by the line terminator of a POSIX system.
\<close>

definition to_csv :: "dataframe \<Rightarrow> string" where
  "to_csv df = writerow (columns df) @ concat (map (\<lambda>r. writerow (map cell_text r)) (cells df))"

text \<open>\<open>s.encode("utf-8")\<close> for code points below 256.\<close>

definition encode_char :: "char \<Rightarrow> bytes" where
  "encode_char c =
     (let n = (of_char c :: nat)
      in if n < 128 then [c] else [char_of (192 + n div 64), char_of (128 + n mod 64)])"

definition encode_utf8 :: "string \<Rightarrow> bytes" where
  "encode_utf8 s = concat (map encode_char s)"

subsection \<open>What a run puts on the page\<close>

record figure =
  figsize :: "real \<times> real"
  imshow :: image

record bar_chart =
  barh_labels :: "string list"
  barh_widths :: "int list"
  yaxis_inverted :: bool
  xlabel :: string
  title :: string

text \<open>
  The outputs of one run of the script: the extracted-text area, the cloud figure,
  the PNG download (the raster that is PNG-encoded), the table, the CSV download,
  the bar chart, and the exception that ended the run, if any.
\<close>

record display =
  extracted_text :: "string option"
  cloud_figure :: "figure option"
  png_download :: "image option"
  frequency_table :: "row list option"
  csv_download :: "bytes option"
  bar_figure :: "bar_chart option"
  raised :: "error option"

definition blank :: display where
  "blank = \<lparr>extracted_text = None, cloud_figure = None, png_download = None,
            frequency_table = None, csv_download = None, bar_figure = None,
            raised = None\<rparr>"

text \<open>Some output of the generation block is on the page.\<close>

definition rendered :: "display \<Rightarrow> bool" where
  "rendered d =
     (cloud_figure d \<noteq> None \<or> png_download d \<noteq> None \<or> frequency_table d \<noteq> None
      \<or> csv_download d \<noteq> None \<or> bar_figure d \<noteq> None)"

subsection \<open>Text acquisition, generation and reporting\<close>

text \<open>The font list of the sidebar: the \<open>.ttf\<close> entries of the fonts directory.\<close>

definition font_files :: "string list \<Rightarrow> string list" where
  "font_files names = filter (\<lambda>f. endswith f ''.ttf'') names"

text \<open>\<open>font_path or None\<close>.\<close>

definition or_None :: "string option \<Rightarrow> string option" where
  "or_None fp = (case fp of None \<Rightarrow> None | Some s \<Rightarrow> if s = [] then None else Some s)"

text \<open>
  The input block: the text handed on, and the extracted text put on the page in
  document mode. \<open>fitz.open\<close> raises before anything of this block is displayed.
\<close>

definition acquire_text :: "env \<Rightarrow> inputs \<Rightarrow> error + string \<times> string option" where
  "acquire_text e inp =
     (if input_method inp = ''Text'' then Inr (text_area inp, None)
      else if input_method inp = ''PDF Upload'' then
        (case uploaded_pdf inp of
           None \<Rightarrow> Inr ([], None)
         | Some b \<Rightarrow>
             (case fitz_open e b of
                Inl err \<Rightarrow> Inl err
              | Inr doc \<Rightarrow>
                  (let pdf_text = py_join [] (map get_text doc)
                   in Inr (pdf_text, Some pdf_text))))
      else Inr ([], None))"

text \<open>
  The table, the CSV download and the bar chart. Indexing the frame by \<open>"Word"\<close>
  raises \<open>KeyError\<close> when the frame has no columns.
\<close>

definition report :: "wordcloud \<Rightarrow> string \<Rightarrow> display \<Rightarrow> display" where
  "report wc text_input d =
     (let normalized_freqs = words wc;
          raw_counts = process_text wc text_input;
          fd = freq_data normalized_freqs raw_counts;
          csv = encode_utf8 (to_csv (DataFrame fd));
          d1 = d\<lparr>frequency_table := Some fd, csv_download := Some csv\<rparr>
      in if fd = [] then d1\<lparr>raised := Some (KeyError ''Word'')\<rparr>
         else d1\<lparr>bar_figure := Some
                \<lparr>barh_labels = map Word fd, barh_widths = map Raw_Count fd,
                 yaxis_inverted = True, xlabel = ''Raw Count'',
                 title = ''Top 10 Words''\<rparr>\<rparr>)"

text \<open>The body of the \<open>if\<close> on the button.\<close>

definition generation :: "env \<Rightarrow> inputs \<Rightarrow> string \<Rightarrow> display \<Rightarrow> display" where
  "generation e inp text_input d =
     (case load_mask e (uploaded_mask inp) (shape inp) of
        Inl err \<Rightarrow> d\<lparr>raised := Some err\<rparr>
      | Inr msk \<Rightarrow>
          (case generate e
                  \<lparr>kw_width = width inp, kw_height = height inp,
                   kw_background_color = bg_color inp, kw_max_words = max_words inp,
                   kw_colormap = colormap inp, kw_mask = msk,
                   kw_font_path = or_None (font_path_of (font_choice inp))\<rparr>
                  (random_state e) text_input of
             Inl err \<Rightarrow> d\<lparr>raised := Some err\<rparr>
           | Inr wc \<Rightarrow>
               report wc text_input
                 (d\<lparr>cloud_figure := Some
                      \<lparr>figsize = (real_of_int (width inp) / 100, real_of_int (height inp) / 100),
                       imshow = to_image wc\<rparr>,
                    png_download := Some (to_image wc)\<rparr>)))"

text \<open>
  One run of the script, top to bottom. Listing the fonts directory comes first and
  may raise; the names only fill the font selectbox. The sidebar widgets return
  the values of \<open>inputs\<close> and cannot fail.
\<close>

definition script :: "env \<Rightarrow> inputs \<Rightarrow> display" where
  "script e inp =
     (case listdir e ''fonts'' of
        Inl err \<Rightarrow> blank\<lparr>raised := Some err\<rparr>
      | Inr names \<Rightarrow>
          (case acquire_text e inp of
             Inl err \<Rightarrow> blank\<lparr>raised := Some err\<rparr>
           | Inr (text_input, shown) \<Rightarrow>
               (let d = blank\<lparr>extracted_text := shown\<rparr>
                in if button inp \<and> py_strip text_input \<noteq> []
                   then generation e inp text_input d else d)))"

section \<open>A reference reader for the exported file\<close>

text \<open>
  The reader is not part of the script: it fixes what parsing the CSV back means.
  It decodes UTF-8 (code points below 256), splits records at line feeds and fields
  at commas, undoes the quoting, and reads the three typed columns.
\<close>

fun decode_utf8 :: "bytes \<Rightarrow> string option" where
  "decode_utf8 [] = Some []"
| "decode_utf8 (b # bs) =
     (let n = (of_char b :: nat)
      in if n < 128 then map_option ((#) b) (decode_utf8 bs)
         else if n = 194 \<or> n = 195 then
           (case bs of
              [] \<Rightarrow> None
            | b2 # bs' \<Rightarrow>
                (let m = (of_char b2 :: nat)
                 in if 128 \<le> m \<and> m < 192
                    then map_option ((#) (char_of ((n - 192) * 64 + (m - 128)))) (decode_utf8 bs')
                    else None))
         else None)"

datatype rstate = FieldStart | InUnquoted | InQuoted | QuoteInQuoted

text \<open>
  \<open>csv_read st cur rw acc s\<close>: the current field \<open>cur\<close> and the current record
  \<open>rw\<close> and the finished records \<open>acc\<close> are kept reversed.
\<close>

fun csv_read :: "rstate \<Rightarrow> string \<Rightarrow> string list \<Rightarrow> string list list \<Rightarrow> string
    \<Rightarrow> string list list option" where
  "csv_read st cur rw acc [] =
     (if st = InQuoted then None
      else if st = FieldStart \<and> rw = [] then Some (rev acc)
      else Some (rev (rev (rev cur # rw) # acc)))"
| "csv_read FieldStart cur rw acc (c # cs) =
     (if c = CHR 0x22 then csv_read InQuoted [] rw acc cs
      else if c = CHR '','' then csv_read FieldStart [] ([] # rw) acc cs
      else if c = CHR 0x0A
        then csv_read FieldStart [] [] (rev (if rw = [] then [] else [] # rw) # acc) cs
      else csv_read InUnquoted [c] rw acc cs)"
| "csv_read InUnquoted cur rw acc (c # cs) =
     (if c = CHR '','' then csv_read FieldStart [] (rev cur # rw) acc cs
      else if c = CHR 0x0A then csv_read FieldStart [] [] (rev (rev cur # rw) # acc) cs
      else csv_read InUnquoted (c # cur) rw acc cs)"
| "csv_read InQuoted cur rw acc (c # cs) =
     (if c = CHR 0x22 then csv_read QuoteInQuoted cur rw acc cs
      else csv_read InQuoted (c # cur) rw acc cs)"
| "csv_read QuoteInQuoted cur rw acc (c # cs) =
     (if c = CHR 0x22 then csv_read InQuoted (c # cur) rw acc cs
      else if c = CHR '','' then csv_read FieldStart [] (rev cur # rw) acc cs
      else if c = CHR 0x0A then csv_read FieldStart [] [] (rev (rev cur # rw) # acc) cs
      else None)"

definition is_digit :: "char \<Rightarrow> bool" where
  "is_digit c = (48 \<le> (of_char c :: nat) \<and> (of_char c :: nat) \<le> 57)"

definition digits_val :: "string \<Rightarrow> nat" where
  "digits_val s = foldl (\<lambda>a c. 10 * a + (of_char c - 48)) 0 s"

definition parse_nat :: "string \<Rightarrow> nat option" where
  "parse_nat s = (if s \<noteq> [] \<and> list_all is_digit s then Some (digits_val s) else None)"

definition parse_int :: "string \<Rightarrow> int option" where
  "parse_int s =
     (case s of
        [] \<Rightarrow> None
      | c # t \<Rightarrow> if c = CHR ''-'' then map_option (\<lambda>n. - int n) (parse_nat t)
                 else map_option int (parse_nat s))"

definition parse_float :: "string \<Rightarrow> real option" where
  "parse_float s =
     (let neg = (s \<noteq> [] \<and> hd s = CHR ''-'');
          t = (if neg then tl s else s);
          ip = takeWhile (\<lambda>c. c \<noteq> CHR ''.'') t
      in case dropWhile (\<lambda>c. c \<noteq> CHR ''.'') t of
           [] \<Rightarrow> None
         | dot # fp \<Rightarrow>
             (case (parse_nat ip, parse_nat fp) of
                (Some a, Some b) \<Rightarrow>
                  Some ((if neg then - 1 else 1) * (real a + real b / 10 ^ length fp))
              | _ \<Rightarrow> None))"

definition parse_row :: "string list \<Rightarrow> row option" where
  "parse_row flds =
     (case flds of
        [w, c, f] \<Rightarrow>
          (case (parse_int c, parse_float f) of
             (Some n, Some v) \<Rightarrow>
               Some \<lparr>Word = w, Raw_Count = n, Normalized_Frequency = v\<rparr>
           | _ \<Rightarrow> None)
      | _ \<Rightarrow> None)"

definition csv_header :: "string list" where
  "csv_header = [''Word'', ''Raw Count'', ''Normalized Frequency (%)'']"

definition read_csv :: "bytes \<Rightarrow> row list option" where
  "read_csv b =
     (case decode_utf8 b of
        None \<Rightarrow> None
      | Some s \<Rightarrow>
          (case csv_read FieldStart [] [] [] s of
             Some (hdr # recs) \<Rightarrow>
               if hdr = csv_header then those (map parse_row recs) else None
           | _ \<Rightarrow> None))"

section \<open>Comparing two outcomes of the renderer\<close>


section \<open>Concrete inputs\<close>

text \<open>
  A small environment for running the model: one font, the heart mask only, a
  two-pixel picture, a two-page document, and a renderer that knows one text and
  lays its picture out according to its random state.
\<close>

fun demo_luma :: "mode \<Rightarrow> nat list \<Rightarrow> nat list" where
  "demo_luma Mode_RGB (r # g # b # rest) =
     (r * 299 + g * 587 + b * 114) div 1000 # demo_luma Mode_RGB rest"
| "demo_luma m s = s"

definition demo_image :: image where
  "demo_image = \<lparr>mode = Mode_RGB, size_wh = (2, 1), samples = [255, 0, 0, 0, 0, 255]\<rparr>"

definition demo_layout :: "nat \<Rightarrow> image" where
  "demo_layout r =
     (if even r then demo_image else demo_image\<lparr>samples := [0, 0, 255, 255, 0, 0]\<rparr>)"

definition demo_wc :: wordcloud where
  "demo_wc = \<lparr>words = [(''cat'', 1), (''dog'', 1 / 2)], to_image = demo_image,
              process_text = (\<lambda>s. [''cat'' \<mapsto> 2, ''dog'' \<mapsto> 1])\<rparr>"

definition demo_env :: env where
  "demo_env =
     \<lparr>listdir = (\<lambda>p. if p = ''fonts'' then Inr [''Lato.ttf'', ''README'']
                     else Inl (FileNotFoundError p)),
      files = [''masks/heart.png'' \<mapsto> ''PNG-heart''],
      image_decode = (\<lambda>b. if b = ''PNG-heart'' then Some demo_image else None),
      luma = demo_luma,
      fitz_open = (\<lambda>b. if b = ''%PDF-1'' then Inr [Page ''cat cat '', Page ''dog'']
                       else Inl FileDataError),
      random_state = 0,
      generate = (\<lambda>kw r s. if s = ''cat cat dog''
                            then Inr (demo_wc\<lparr>to_image := demo_layout r\<rparr>)
                            else Inl ValueError)\<rparr>"

definition demo_inputs :: inputs where
  "demo_inputs =
     \<lparr>bg_color = ''#ffffff'', max_words = 200, width = 800, height = 400,
      colormap = ''viridis'', font_choice = ''Default'', shape = ''None'',
      uploaded_mask = None, input_method = ''Text'', text_area = ''cat cat dog'',
      uploaded_pdf = None, button = True\<rparr>"

text \<open>
  Twelve words with ties in the raw count; a word missing from the raw counts; and
  weights whose product with 100 is not exact. The weights are the float quotients
  of the counts, as the renderer computes them.
\<close>

definition demo_wc12 :: wordcloud where
  "demo_wc12 =
     \<lparr>words = [(''a'', fl (3 / 5)), (''b'', 1), (''c'', fl (3 / 5)), (''d'', fl (1 / 5)),
               (''e'', fl (2 / 5)), (''f'', fl (2 / 5)), (''g'', fl (1 / 5)), (''h'', fl (1 / 5)),
               (''i'', fl (4 / 5)), (''j'', fl (1 / 5)), (''k'', fl (1 / 5)), (''l'', fl (1 / 5))],
      to_image = \<lparr>mode = Mode_RGB, size_wh = (0, 0), samples = []\<rparr>,
      process_text = (\<lambda>s. [''a'' \<mapsto> 3, ''b'' \<mapsto> 5, ''c'' \<mapsto> 3, ''d'' \<mapsto> 1, ''e'' \<mapsto> 2,
                           ''f'' \<mapsto> 2, ''g'' \<mapsto> 1, ''h'' \<mapsto> 1, ''i'' \<mapsto> 4, ''j'' \<mapsto> 1,
                           ''k'' \<mapsto> 1, ''l'' \<mapsto> 1])\<rparr>"

definition demo_wc3 :: wordcloud where
  "demo_wc3 =
     \<lparr>words = [(''cat'', 1), (''dog'', fl (1 / 3)), (''emu'', fl (2 / 3))],
      to_image = \<lparr>mode = Mode_RGB, size_wh = (0, 0), samples = []\<rparr>,
      process_text = (\<lambda>s. [''cat'' \<mapsto> 3, ''dog'' \<mapsto> 1])\<rparr>"

definition demo_wc160 :: wordcloud where
  "demo_wc160 =
     \<lparr>words = [(''cat'', 1), (''dog'', fl (23 / 160)), (''emu'', fl (1 / 160))],
      to_image = \<lparr>mode = Mode_RGB, size_wh = (0, 0), samples = []\<rparr>,
      process_text = (\<lambda>s. [''cat'' \<mapsto> 160, ''dog'' \<mapsto> 23])\<rparr>"

section \<open>Basic facts\<close>

text \<open>Rules that evaluate the float model on numerals.\<close>

lemma bits_0: "bits 0 = 0"
  by (simp add: bits.simps)

lemma bits_Suc_0: "bits (Suc 0) = 1"
  by (simp add: bits.simps)

lemma bits_numeral: "bits (numeral n) = Suc (bits (numeral n div 2))"
  by (subst bits.simps) simp

lemmas float_eval = fl_def kexp_def bits_0 bits_Suc_0 bits_numeral round_half_even_def

lemma py_join_empty: "py_join [] xs = concat xs"
  by (induction xs rule: induct_list012) simp_all

lemma py_strip_Nil_iff: "py_strip s = [] \<longleftrightarrow> (\<forall>c\<in>set s. py_isspace c)"
proof -
  have "py_strip s = [] \<longleftrightarrow> dropWhile py_isspace (rev (dropWhile py_isspace s)) = []"
    by (simp add: py_strip_def)
  also have "\<dots> \<longleftrightarrow> (\<forall>c\<in>set (dropWhile py_isspace s). py_isspace c)"
    by (simp add: dropWhile_eq_Nil_conv)
  also have "\<dots> \<longleftrightarrow> (\<forall>c\<in>set s. py_isspace c)"
  proof
    assume a: "\<forall>c\<in>set (dropWhile py_isspace s). py_isspace c"
    show "\<forall>c\<in>set s. py_isspace c"
    proof (cases "dropWhile py_isspace s")
      case Nil
      then show ?thesis by (simp add: dropWhile_eq_Nil_conv)
    next
      case (Cons x xs)
      then have "\<not> py_isspace x" by (metis hd_dropWhile list.sel(1) list.distinct(1))
      moreover have "x \<in> set (dropWhile py_isspace s)" using Cons by simp
      ultimately show ?thesis using a by blast
    qed
  next
    assume "\<forall>c\<in>set s. py_isspace c"
    then show "\<forall>c\<in>set (dropWhile py_isspace s). py_isspace c"
      by (meson set_dropWhileD)
  qed
  finally show ?thesis .
qed

lemma ndim_convert_L: "ndim (np_array (convert_L e img)) = 2"
  by (simp add: ndim_def np_array_def convert_L_def split: prod.splits)

lemma ndim_np_array: "ndim (np_array img) = (if bands (mode img) = 1 then 2 else 3)"
  by (simp add: ndim_def np_array_def split: prod.splits)

lemma rendered_blank [simp]:
  "\<not> rendered (blank\<lparr>extracted_text := s\<rparr>)" "\<not> rendered (blank\<lparr>raised := r\<rparr>)"
  by (simp_all add: rendered_def blank_def)

subsection \<open>The concrete run\<close>

lemma demo_fonts: "listdir demo_env ''fonts'' = Inr [''Lato.ttf'', ''README'']"
  by (simp add: demo_env_def)

lemma demo_decode: "image_decode demo_env ''PNG-heart'' = Some demo_image"
  by (simp add: demo_env_def)

lemma demo_heart_file: "files demo_env (mask_path ''Heart'') = Some ''PNG-heart''"
  by (simp add: demo_env_def mask_path_def py_lower_def lower_char_def char_of_def bit_simps)

lemma demo_circle_path: "mask_path ''Circle'' = ''masks/circle.png''"
  by (simp add: mask_path_def py_lower_def lower_char_def char_of_def bit_simps)

lemma demo_circle_file: "files demo_env (mask_path ''Circle'') = None"
  by (simp add: demo_circle_path demo_env_def)

lemma demo_gray: "np_array (convert_L demo_env demo_image) = \<lparr>dims = [1, 2], buf = [76, 29]\<rparr>"
  by (simp add: np_array_def convert_L_def demo_env_def demo_image_def)

lemma demo_rgb: "np_array demo_image = \<lparr>dims = [1, 2, 3], buf = [255, 0, 0, 0, 0, 255]\<rparr>"
  by (simp add: np_array_def demo_image_def)

lemma demo_nonblank: "py_strip ''cat cat dog'' \<noteq> []"
  by (simp add: py_strip_def py_isspace_def)

lemma demo_fd:
  "freq_data (words demo_wc) (process_text demo_wc ''cat cat dog'') =
     [\<lparr>Word = ''cat'', Raw_Count = 2, Normalized_Frequency = 100\<rparr>,
      \<lparr>Word = ''dog'', Raw_Count = 1, Normalized_Frequency = 50\<rparr>]"
  by (simp add: demo_wc_def freq_data_def freq_rows_def freq_row_def py_sorted_reverse_def
      dict_get_def py_round_def float_eval)

lemma demo_csv:
  "encode_utf8 (to_csv (DataFrame
     [\<lparr>Word = ''cat'', Raw_Count = 2, Normalized_Frequency = 100\<rparr>,
      \<lparr>Word = ''dog'', Raw_Count = 1, Normalized_Frequency = 50\<rparr>]))
   = ''Word,Raw Count,Normalized Frequency (%)\<newline>cat,2,100.0\<newline>dog,1,50.0\<newline>''"
proof -
  have "to_csv (DataFrame
     [\<lparr>Word = ''cat'', Raw_Count = 2, Normalized_Frequency = 100\<rparr>,
      \<lparr>Word = ''dog'', Raw_Count = 1, Normalized_Frequency = 50\<rparr>])
    = ''Word,Raw Count,Normalized Frequency (%)\<newline>cat,2,100.0\<newline>dog,1,50.0\<newline>''"
    by (simp add: to_csv_def DataFrame_def writerow_def csv_field_def csv_special_def
        float_repr_def frac_digits_def str_int_def str_nat.simps digit_char_def char_of_def
        bit_simps)
  then show ?thesis
    by (simp add: encode_utf8_def encode_char_def)
qed

lemma demo_report:
  "report demo_wc ''cat cat dog'' d =
     d\<lparr>frequency_table := Some
          [\<lparr>Word = ''cat'', Raw_Count = 2, Normalized_Frequency = 100\<rparr>,
           \<lparr>Word = ''dog'', Raw_Count = 1, Normalized_Frequency = 50\<rparr>],
       csv_download := Some
          ''Word,Raw Count,Normalized Frequency (%)\<newline>cat,2,100.0\<newline>dog,1,50.0\<newline>'',
       bar_figure := Some
          \<lparr>barh_labels = [''cat'', ''dog''], barh_widths = [2, 1], yaxis_inverted = True,
           xlabel = ''Raw Count'', title = ''Top 10 Words''\<rparr>\<rparr>"
  by (simp add: report_def Let_def demo_fd demo_csv)

lemma demo_script:
  "script demo_env demo_inputs =
     \<lparr>extracted_text = None,
      cloud_figure = Some \<lparr>figsize = (8, 4), imshow = demo_image\<rparr>,
      png_download = Some demo_image,
      frequency_table = Some
        [\<lparr>Word = ''cat'', Raw_Count = 2, Normalized_Frequency = 100\<rparr>,
         \<lparr>Word = ''dog'', Raw_Count = 1, Normalized_Frequency = 50\<rparr>],
      csv_download = Some
        ''Word,Raw Count,Normalized Frequency (%)\<newline>cat,2,100.0\<newline>dog,1,50.0\<newline>'',
      bar_figure = Some
        \<lparr>barh_labels = [''cat'', ''dog''], barh_widths = [2, 1], yaxis_inverted = True,
         xlabel = ''Raw Count'', title = ''Top 10 Words''\<rparr>,
      raised = None\<rparr>"
proof -
  have m: "load_mask demo_env None ''None'' = Inr None"
    by (simp add: load_mask_def)
  have g: "generate demo_env kw (random_state demo_env) ''cat cat dog'' = Inr demo_wc" for kw
    by (simp add: demo_env_def demo_layout_def demo_wc_def)
  have i: "to_image demo_wc = demo_image"
    by (simp add: demo_wc_def)
  show ?thesis
    using demo_nonblank
    by (simp add: script_def demo_fonts m g i demo_inputs_def acquire_text_def generation_def
        demo_report blank_def)
qed

section \<open>The mask loader\<close>

text \<open>
  C3. The mask loader gives the uploaded image (converted to grayscale) whenever an
  upload is present, whatever shape is selected; with no upload and a shape other
  than "None" it gives the image of that shape's file; with neither it gives the
  absence value. The uploaded stream and the shape's file are taken to decode; a
  missing file is the subject of C7.
\<close>

theorem load_mask_precedence:
  "(\<forall>f img shp. image_decode e f = Some img \<longrightarrow>
       load_mask e (Some f) shp = Inr (Some (np_array (convert_L e img))))
   \<and> (\<forall>f shp. load_mask e (Some f) shp = load_mask e (Some f) ''None'')
   \<and> (\<forall>shp b img. shp \<noteq> ''None'' \<longrightarrow> files e (mask_path shp) = Some b \<longrightarrow>
         image_decode e b = Some img \<longrightarrow>
         load_mask e None shp = Inr (Some (np_array img)))
   \<and> load_mask e None ''None'' = Inr None"
  by (simp add: load_mask_def Image_open_stream_def Image_open_path_def)

theorem load_mask_precedence_witness:
  "load_mask demo_env (Some ''PNG-heart'') ''Heart''
     = Inr (Some \<lparr>dims = [1, 2], buf = [76, 29]\<rparr>)
   \<and> load_mask demo_env (Some ''PNG-heart'') ''Heart''
     = load_mask demo_env (Some ''PNG-heart'') ''None''
   \<and> load_mask demo_env None ''Heart''
     = Inr (Some \<lparr>dims = [1, 2, 3], buf = [255, 0, 0, 0, 0, 255]\<rparr>)
   \<and> load_mask demo_env None ''None'' = Inr None"
proof -
  note p = load_mask_precedence [of demo_env]
  have n: "''Heart'' \<noteq> ''None''" by simp
  have 1: "load_mask demo_env (Some ''PNG-heart'') ''Heart''
      = Inr (Some (np_array (convert_L demo_env demo_image)))"
    by (rule p [THEN conjunct1, rule_format, OF demo_decode])
  have 2: "load_mask demo_env (Some ''PNG-heart'') ''Heart''
      = load_mask demo_env (Some ''PNG-heart'') ''None''"
    by (rule p [THEN conjunct2, THEN conjunct1, rule_format])
  have 3: "load_mask demo_env None ''Heart'' = Inr (Some (np_array demo_image))"
    by (rule p [THEN conjunct2, THEN conjunct2, THEN conjunct1, rule_format,
          OF n demo_heart_file demo_decode])
  have 4: "load_mask demo_env None ''None'' = Inr None"
    by (rule p [THEN conjunct2, THEN conjunct2, THEN conjunct2])
  from 1 2 3 4 show ?thesis by (simp only: demo_gray demo_rgb simp_thms)
qed

text \<open>
  C10. Only the uploaded image goes through the grayscale conversion; the image of
  a built-in shape reaches the renderer as it was loaded. For one and the same
  picture file, the upload path hands over an array with two axes, and the
  built-in path one with three axes as soon as the picture has several bands.
\<close>

theorem grayscale_only_for_upload:
  assumes "shp \<noteq> ''None''" and "files e (mask_path shp) = Some b"
    and "image_decode e b = Some img"
  shows "load_mask e (Some b) shp = Inr (Some (np_array (convert_L e img)))
     \<and> load_mask e None shp = Inr (Some (np_array img))
     \<and> ndim (np_array (convert_L e img)) = 2
     \<and> (bands (mode img) \<noteq> 1 \<longrightarrow>
          ndim (np_array img) = 3 \<and> np_array (convert_L e img) \<noteq> np_array img)"
proof -
  have up: "load_mask e (Some b) shp = Inr (Some (np_array (convert_L e img)))"
    using assms(3) by (simp add: load_mask_def Image_open_stream_def)
  have bi: "load_mask e None shp = Inr (Some (np_array img))"
    using assms by (simp add: load_mask_def Image_open_stream_def Image_open_path_def)
  have "np_array (convert_L e img) \<noteq> np_array img" if "bands (mode img) \<noteq> 1"
  proof
    assume "np_array (convert_L e img) = np_array img"
    then have "ndim (np_array img) = 2" using ndim_convert_L [of e img] by simp
    with that show False by (simp add: ndim_np_array)
  qed
  with up bi ndim_convert_L [of e img] show ?thesis by (simp add: ndim_np_array)
qed

theorem grayscale_only_for_upload_witness:
  "load_mask demo_env (Some ''PNG-heart'') ''Heart''
     = Inr (Some \<lparr>dims = [1, 2], buf = [76, 29]\<rparr>)
   \<and> load_mask demo_env None ''Heart''
     = Inr (Some \<lparr>dims = [1, 2, 3], buf = [255, 0, 0, 0, 0, 255]\<rparr>)
   \<and> ndim (np_array demo_image) = 3"
proof -
  have n: "''Heart'' \<noteq> ''None''" by simp
  have m: "bands (mode demo_image) \<noteq> 1" by (simp add: demo_image_def)
  from grayscale_only_for_upload [OF n demo_heart_file demo_decode] m
  show ?thesis by (simp add: demo_gray demo_rgb)
qed

text \<open>
  C7. With no upload, a built-in shape selected and that shape's file missing, the
  mask loader fails with \<open>FileNotFoundError\<close>, an I/O error; the generation block that
  called it ends with this error and adds nothing to the page, and so does the run
  of the script that reached it.
\<close>

theorem missing_mask_file:
  assumes "shp \<noteq> ''None''" and "files e (mask_path shp) = None"
  shows "load_mask e None shp = Inl (FileNotFoundError (mask_path shp))
     \<and> is_io_error (FileNotFoundError (mask_path shp))
     \<and> (\<forall>inp t d. uploaded_mask inp = None \<longrightarrow> shape inp = shp \<longrightarrow>
           generation e inp t d = d\<lparr>raised := Some (FileNotFoundError (mask_path shp))\<rparr>)
     \<and> (\<forall>inp names t shown. uploaded_mask inp = None \<longrightarrow> shape inp = shp \<longrightarrow>
           listdir e ''fonts'' = Inr names \<longrightarrow> acquire_text e inp = Inr (t, shown) \<longrightarrow>
           button inp \<longrightarrow> py_strip t \<noteq> [] \<longrightarrow>
           script e inp = blank\<lparr>extracted_text := shown,
                                raised := Some (FileNotFoundError (mask_path shp))\<rparr>)"
proof -
  have "load_mask e None shp = Inl (FileNotFoundError (mask_path shp))"
    using assms by (simp add: load_mask_def Image_open_path_def)
  then show ?thesis
    by (simp add: generation_def script_def)
qed

theorem missing_mask_file_witness:
  "load_mask demo_env None ''Circle'' = Inl (FileNotFoundError ''masks/circle.png'')
   \<and> script demo_env (demo_inputs\<lparr>shape := ''Circle''\<rparr>)
       = blank\<lparr>raised := Some (FileNotFoundError ''masks/circle.png'')\<rparr>"
proof -
  let ?inp = "demo_inputs\<lparr>shape := ''Circle''\<rparr>"
  have n: "''Circle'' \<noteq> ''None''" by simp
  note m = missing_mask_file [OF n demo_circle_file]
  have a: "acquire_text demo_env ?inp = Inr (''cat cat dog'', None)"
    by (simp add: acquire_text_def demo_inputs_def)
  have b: "button ?inp" and u: "uploaded_mask ?inp = None" and h: "shape ?inp = ''Circle''"
    by (simp_all add: demo_inputs_def)
  have 1: "load_mask demo_env None ''Circle'' = Inl (FileNotFoundError (mask_path ''Circle''))"
    by (rule m [THEN conjunct1])
  have 2: "script demo_env ?inp
       = blank\<lparr>extracted_text := None,
               raised := Some (FileNotFoundError (mask_path ''Circle''))\<rparr>"
    by (rule m [THEN conjunct2, THEN conjunct2, THEN conjunct2, rule_format,
          OF u h demo_fonts a b demo_nonblank])
  from 1 2 show ?thesis by (simp add: demo_circle_path blank_def)
qed

section \<open>Text acquisition\<close>

text \<open>
  C8. In document mode the acquired text is the concatenation of the texts of all
  pages of the uploaded document, in page order, with nothing between them; the
  same string is what the extracted-text area shows.
\<close>

theorem pdf_text_is_concat:
  assumes "input_method inp = ''PDF Upload''" and "uploaded_pdf inp = Some b"
    and "fitz_open e b = Inr doc"
  shows "acquire_text e inp
     = Inr (concat (map get_text doc), Some (concat (map get_text doc)))"
  using assms by (simp add: acquire_text_def py_join_empty Let_def)

theorem pdf_text_is_concat_witness:
  "acquire_text demo_env
      (demo_inputs\<lparr>input_method := ''PDF Upload'', uploaded_pdf := Some ''%PDF-1''\<rparr>)
     = Inr (''cat cat dog'', Some ''cat cat dog'')"
proof -
  have "fitz_open demo_env ''%PDF-1'' = Inr [Page ''cat cat '', Page ''dog'']"
    by (simp add: demo_env_def)
  from pdf_text_is_concat [OF _ _ this,
      of "demo_inputs\<lparr>input_method := ''PDF Upload'', uploaded_pdf := Some ''%PDF-1''\<rparr>"]
  show ?thesis by (simp add: demo_inputs_def)
qed

text \<open>
  C6. When the uploaded byte stream does not open as a document, the extraction
  step ends with the error of \<open>fitz.open\<close>; the run of the script ends with that
  error, shows no extracted text and renders nothing.
\<close>

theorem invalid_document_halts:
  assumes "input_method inp = ''PDF Upload''" and "uploaded_pdf inp = Some b"
    and "fitz_open e b = Inl err"
  shows "acquire_text e inp = Inl err
     \<and> (\<forall>names. listdir e ''fonts'' = Inr names \<longrightarrow>
           script e inp = blank\<lparr>raised := Some err\<rparr>)
     \<and> raised (script e inp) \<noteq> None
     \<and> extracted_text (script e inp) = None
     \<and> \<not> rendered (script e inp)"
proof -
  have "acquire_text e inp = Inl err"
    using assms by (simp add: acquire_text_def)
  then show ?thesis
    by (simp add: script_def blank_def rendered_def split: sum.splits)
qed

theorem invalid_document_halts_witness:
  "script demo_env
      (demo_inputs\<lparr>input_method := ''PDF Upload'', uploaded_pdf := Some ''GIF89a''\<rparr>)
     = blank\<lparr>raised := Some FileDataError\<rparr>"
proof -
  have f: "fitz_open demo_env ''GIF89a'' = Inl FileDataError"
    by (simp add: demo_env_def)
  from invalid_document_halts [OF _ _ f,
      of "demo_inputs\<lparr>input_method := ''PDF Upload'', uploaded_pdf := Some ''GIF89a''\<rparr>"]
    demo_fonts
  show ?thesis by (simp add: demo_inputs_def)
qed

section \<open>The guard on the button\<close>

text \<open>
  C2. When the acquired text is empty or holds only whitespace, the run puts no
  image, no table, no chart and no download on the page and raises nothing, whether
  the button is pressed or not. Whenever a run does show one of these outputs, the
  button was pressed and the acquired text has a character that is not whitespace.
\<close>

theorem blank_text_is_noop:
  "(\<forall>names t shown. listdir e ''fonts'' = Inr names \<longrightarrow>
       acquire_text e inp = Inr (t, shown) \<longrightarrow> (\<forall>c\<in>set t. py_isspace c) \<longrightarrow>
       script e inp = blank\<lparr>extracted_text := shown\<rparr>
       \<and> \<not> rendered (script e inp) \<and> raised (script e inp) = None)
   \<and> (rendered (script e inp) \<longrightarrow>
        button inp
        \<and> (\<exists>t shown. acquire_text e inp = Inr (t, shown) \<and> (\<exists>c\<in>set t. \<not> py_isspace c)))"
proof (intro conjI allI impI)
  fix names t shown
  assume a: "listdir e ''fonts'' = Inr names" "acquire_text e inp = Inr (t, shown)"
    "\<forall>c\<in>set t. py_isspace c"
  then have "py_strip t = []" by (simp add: py_strip_Nil_iff)
  with a show s: "script e inp = blank\<lparr>extracted_text := shown\<rparr>"
    by (simp add: script_def)
  show "\<not> rendered (script e inp)" by (simp add: s)
  show "raised (script e inp) = None" by (simp add: s blank_def)
next
  assume r: "rendered (script e inp)"
  show "button inp"
    using r by (auto simp: script_def Let_def split: sum.splits prod.splits if_splits)
  show "\<exists>t shown. acquire_text e inp = Inr (t, shown) \<and> (\<exists>c\<in>set t. \<not> py_isspace c)"
    using r
    by (auto simp: script_def Let_def py_strip_Nil_iff split: sum.splits prod.splits if_splits)
qed

theorem blank_text_is_noop_witness:
  "script demo_env (demo_inputs\<lparr>text_area := ''  ''\<rparr>) = blank
   \<and> rendered (script demo_env demo_inputs) \<and> button demo_inputs"
proof -
  have a: "acquire_text demo_env (demo_inputs\<lparr>text_area := ''  ''\<rparr>) = Inr (''  '', None)"
    by (simp add: acquire_text_def demo_inputs_def)
  have w: "\<And>c. c \<in> set ''  '' \<Longrightarrow> py_isspace c"
    by (simp add: py_isspace_def)
  have r: "rendered (script demo_env demo_inputs)"
    by (simp add: demo_script rendered_def)
  have "script demo_env (demo_inputs\<lparr>text_area := ''  ''\<rparr>) = blank\<lparr>extracted_text := None\<rparr>"
    by (rule blank_text_is_noop [THEN conjunct1, rule_format, OF demo_fonts a w, THEN conjunct1])
  moreover have "button demo_inputs"
    by (rule blank_text_is_noop [THEN conjunct2, rule_format, OF r, THEN conjunct1])
  ultimately show ?thesis using r by (simp add: blank_def)
qed

section \<open>Two runs\<close>











section \<open>The frequency table\<close>

lemma mset_py_sorted_reverse: "mset (py_sorted_reverse key xs) = mset xs"
  by (simp add: py_sorted_reverse_def)

lemma length_py_sorted_reverse: "length (py_sorted_reverse key xs) = length xs"
  by (simp add: py_sorted_reverse_def)

lemma sorted_py_sorted_reverse:
  "sorted_wrt (\<lambda>a b. key b \<le> key a) (py_sorted_reverse key xs)"
proof -
  have "sorted (map key (sort_key key (rev xs)))"
    by (rule sorted_sort_key)
  then have "sorted_wrt (\<lambda>a b. key a \<le> key b) (sort_key key (rev xs))"
    by (simp add: sorted_wrt_map)
  then show ?thesis
    by (simp add: py_sorted_reverse_def sorted_wrt_rev)
qed

lemma stable_py_sorted_reverse:
  "filter (\<lambda>x. key x = k) (py_sorted_reverse key xs) = filter (\<lambda>x. key x = k) xs"
proof -
  have "filter (\<lambda>x. key x = k) (py_sorted_reverse key xs)
      = rev (filter (\<lambda>x. key x = k) (sort_key key (rev xs)))"
    by (simp add: py_sorted_reverse_def rev_filter)
  also have "\<dots> = rev (filter (\<lambda>x. key x = k) (rev xs))"
    by (simp only: sort_key_stable)
  also have "\<dots> = filter (\<lambda>x. key x = k) xs"
    by (simp add: rev_filter)
  finally show ?thesis .
qed

lemma filter_take_prefix: "\<exists>m. filter P (take n xs) = take m (filter P xs)"
proof (induction xs arbitrary: n)
  case Nil
  then show ?case by simp
next
  case (Cons x xs)
  show ?case
  proof (cases n)
    case 0
    then show ?thesis by (intro exI [of _ 0]) simp
  next
    case (Suc j)
    from Cons.IH [of j] obtain m where m: "filter P (take j xs) = take m (filter P xs)" ..
    show ?thesis
    proof (cases "P x")
      case True
      with Suc m show ?thesis by (intro exI [of _ "Suc m"]) simp
    next
      case False
      with Suc m show ?thesis by (intro exI [of _ m]) simp
    qed
  qed
qed

lemma frequency_table_report:
  "frequency_table (report wc s d) = Some (freq_data (words wc) (process_text wc s))"
  by (simp add: report_def Let_def)

lemma round_half_even_near: "\<bar>of_int (round_half_even y) - y\<bar> \<le> 1 / 2"
  unfolding round_half_even_def Let_def by (auto; linarith)

lemma py_round_near: "\<bar>py_round x 2 - x\<bar> \<le> 1 / 200"
proof -
  have "\<bar>of_int (round_half_even (x * 100)) - x * 100\<bar> \<le> 1 / 2"
    by (rule round_half_even_near)
  then show ?thesis by (simp add: py_round_def field_simps abs_le_iff)
qed

lemma py_round_range:
  assumes "0 \<le> x" and "x \<le> 100"
  shows "0 \<le> py_round x 2 \<and> py_round x 2 \<le> 100"
proof -
  let ?r = "round_half_even (x * 100)"
  have n: "\<bar>of_int ?r - x * 100\<bar> \<le> 1 / 2"
    by (rule round_half_even_near)
  have "(- 1 :: real) < of_int ?r" using n assms(1) by linarith
  then have "0 \<le> ?r" by linarith
  moreover have "of_int ?r < (10001 :: real)" using n assms(2) by linarith
  then have "?r \<le> 10000" by linarith
  ultimately show ?thesis by (simp add: py_round_def)
qed

lemma round_half_even_le:
  assumes "y \<le> of_int n"
  shows "round_half_even y \<le> n"
proof -
  have "of_int (round_half_even y) \<le> y + 1 / 2"
    using round_half_even_near [of y] by linarith
  with assms have "(of_int (round_half_even y) :: real) < of_int n + 1" by linarith
  then show ?thesis by linarith
qed

lemma round_half_even_ge:
  assumes "of_int n \<le> y"
  shows "n \<le> round_half_even y"
proof -
  have "y - 1 / 2 \<le> of_int (round_half_even y)"
    using round_half_even_near [of y] by linarith
  with assms have "(of_int n :: real) - 1 < of_int (round_half_even y)" by linarith
  then show ?thesis by linarith
qed

lemma bits_le: "n < 2 ^ k \<Longrightarrow> bits n \<le> k"
proof (induction k arbitrary: n)
  case 0
  then show ?case by (simp add: bits.simps)
next
  case (Suc k)
  show ?case
  proof (cases "n = 0")
    case True
    then show ?thesis by (simp add: bits.simps)
  next
    case False
    from Suc.prems have "n div 2 < 2 ^ k" by simp
    then have "bits (n div 2) \<le> k" by (rule Suc.IH)
    with False show ?thesis by (subst bits.simps) simp
  qed
qed

lemma kexp_ge:
  assumes "0 \<le> x" and "x \<le> 100"
  shows "46 \<le> kexp x"
proof (cases "1 \<le> x")
  case True
  have "\<lfloor>x\<rfloor> \<le> \<lfloor>100::real\<rfloor>" using assms(2) by (rule floor_mono)
  then have "\<lfloor>x\<rfloor> \<le> 100" by (simp only: floor_numeral)
  then have "nat \<lfloor>x\<rfloor> < 128" by linarith
  then have "nat \<lfloor>x\<rfloor> < 2 ^ 7" by simp
  then have "bits (nat \<lfloor>x\<rfloor>) \<le> 7" by (rule bits_le)
  with True assms(1) show ?thesis by (simp add: kexp_def)
next
  case False
  with assms(1) show ?thesis by (simp add: kexp_def)
qed

lemma fl_as_nat_power:
  assumes "x \<noteq> 0" and "0 \<le> kexp x"
  shows "fl x = of_int (round_half_even (x * 2 ^ nat (kexp x))) / 2 ^ nat (kexp x)"
proof -
  have "(2::real) powi kexp x = 2 ^ nat (kexp x)"
    using assms(2) by (simp add: power_int_def)
  with assms(1) show ?thesis by (simp add: fl_def)
qed

lemma fl_range:
  assumes "0 \<le> x" and "x \<le> 100"
  shows "0 \<le> fl x \<and> fl x \<le> 100"
proof (cases "x = 0")
  case True
  then show ?thesis by (simp add: fl_def)
next
  case False
  define k where "k = nat (kexp x)"
  have k: "0 \<le> kexp x" using kexp_ge [OF assms] by simp
  have f: "fl x = of_int (round_half_even (x * 2 ^ k)) / 2 ^ k"
    unfolding k_def using False k by (rule fl_as_nat_power)
  have "of_int 0 \<le> x * 2 ^ k" using assms(1) by simp
  then have lo: "0 \<le> round_half_even (x * 2 ^ k)" by (rule round_half_even_ge)
  have "x * 2 ^ k \<le> of_int (100 * 2 ^ k)" using assms(2) by simp
  then have "round_half_even (x * 2 ^ k) \<le> 100 * 2 ^ k" by (rule round_half_even_le)
  then have "(of_int (round_half_even (x * 2 ^ k)) :: real) \<le> of_int (100 * 2 ^ k)"
    by (simp only: of_int_le_iff)
  then have hi: "(of_int (round_half_even (x * 2 ^ k)) :: real) \<le> 100 * 2 ^ k" by simp
  from lo hi show ?thesis by (simp add: f field_simps)
qed

lemma fl_near:
  assumes "0 \<le> x" and "x \<le> 100"
  shows "\<bar>fl x - x\<bar> \<le> 1 / 2 ^ 47"
proof (cases "x = 0")
  case True
  then show ?thesis by (simp add: fl_def)
next
  case False
  define k where "k = nat (kexp x)"
  have kk: "46 \<le> kexp x" by (rule kexp_ge [OF assms])
  then have k: "0 \<le> kexp x" by simp
  have k46: "46 \<le> k" using kk by (simp add: k_def)
  have f: "fl x = of_int (round_half_even (x * 2 ^ k)) / 2 ^ k"
    unfolding k_def using False k by (rule fl_as_nat_power)
  have "\<bar>of_int (round_half_even (x * 2 ^ k)) - x * 2 ^ k\<bar> \<le> 1 / 2"
    by (rule round_half_even_near)
  then have "\<bar>fl x - x\<bar> * 2 ^ k \<le> 1 / 2"
    by (simp add: f abs_le_iff field_simps)
  then have "\<bar>fl x - x\<bar> \<le> 1 / 2 / 2 ^ k"
    by (simp add: pos_le_divide_eq)
  also have "\<dots> \<le> 1 / 2 / 2 ^ 46"
  proof -
    have "(2::real) ^ 46 \<le> 2 ^ k" using k46 by (intro power_increasing) simp_all
    then show ?thesis by (intro divide_left_mono) (simp_all del: power_numeral)
  qed
  finally show ?thesis by simp
qed

lemma demo_table12:
  "frequency_table (report demo_wc12 s d) = Some
     [\<lparr>Word = ''b'', Raw_Count = 5, Normalized_Frequency = 100\<rparr>,
      \<lparr>Word = ''i'', Raw_Count = 4, Normalized_Frequency = 80\<rparr>,
      \<lparr>Word = ''a'', Raw_Count = 3, Normalized_Frequency = 60\<rparr>,
      \<lparr>Word = ''c'', Raw_Count = 3, Normalized_Frequency = 60\<rparr>,
      \<lparr>Word = ''e'', Raw_Count = 2, Normalized_Frequency = 40\<rparr>,
      \<lparr>Word = ''f'', Raw_Count = 2, Normalized_Frequency = 40\<rparr>,
      \<lparr>Word = ''d'', Raw_Count = 1, Normalized_Frequency = 20\<rparr>,
      \<lparr>Word = ''g'', Raw_Count = 1, Normalized_Frequency = 20\<rparr>,
      \<lparr>Word = ''h'', Raw_Count = 1, Normalized_Frequency = 20\<rparr>,
      \<lparr>Word = ''j'', Raw_Count = 1, Normalized_Frequency = 20\<rparr>]"
  by (simp add: frequency_table_report demo_wc12_def freq_data_def freq_rows_def freq_row_def
      py_sorted_reverse_def dict_get_def py_round_def float_eval)

lemma demo_table3:
  "frequency_table (report demo_wc3 s d) = Some
     [\<lparr>Word = ''cat'', Raw_Count = 3, Normalized_Frequency = 100\<rparr>,
      \<lparr>Word = ''dog'', Raw_Count = 1, Normalized_Frequency = 3333 / 100\<rparr>,
      \<lparr>Word = ''emu'', Raw_Count = 0, Normalized_Frequency = 6667 / 100\<rparr>]"
  by (simp add: frequency_table_report demo_wc3_def freq_data_def freq_rows_def freq_row_def
      py_sorted_reverse_def dict_get_def py_round_def float_eval)

lemma demo_table160:
  "frequency_table (report demo_wc160 s d) = Some
     [\<lparr>Word = ''cat'', Raw_Count = 160, Normalized_Frequency = 100\<rparr>,
      \<lparr>Word = ''dog'', Raw_Count = 23, Normalized_Frequency = 1437 / 100\<rparr>,
      \<lparr>Word = ''emu'', Raw_Count = 0, Normalized_Frequency = 62 / 100\<rparr>]"
  by (simp add: frequency_table_report demo_wc160_def freq_data_def freq_rows_def freq_row_def
      py_sorted_reverse_def dict_get_def py_round_def float_eval)

lemma demo_weights160:
  "\<forall>(w, f)\<in>set (words demo_wc160). is_double f \<and> 0 \<le> f \<and> f \<le> 1"
  by (simp add: demo_wc160_def is_double_def float_eval)

text \<open>
  C1. After a render, the table on the page is the first ten entries of a list that
  holds exactly the records built for the renderer's words, is in descending order
  of the raw count, and keeps records of equal raw count in the order the
  renderer's mapping gave them. So the table has at most ten rows, is itself in
  descending order, and its rows of any one raw count are an initial part of the
  renderer's rows of that count, in the same order.
\<close>

theorem frequency_table_sorted_top10:
  "\<exists>T S. frequency_table (report wc s d) = Some T
     \<and> map Word (freq_rows (words wc) (process_text wc s)) = map fst (words wc)
     \<and> T = take 10 S
     \<and> mset S = mset (freq_rows (words wc) (process_text wc s))
     \<and> sorted_wrt (\<lambda>a b. Raw_Count b \<le> Raw_Count a) S
     \<and> (\<forall>k. filter (\<lambda>r. Raw_Count r = k) S
            = filter (\<lambda>r. Raw_Count r = k) (freq_rows (words wc) (process_text wc s)))
     \<and> length T \<le> 10
     \<and> sorted_wrt (\<lambda>a b. Raw_Count b \<le> Raw_Count a) T
     \<and> (\<forall>k. \<exists>m. filter (\<lambda>r. Raw_Count r = k) T
            = take m (filter (\<lambda>r. Raw_Count r = k) (freq_rows (words wc) (process_text wc s))))"
proof -
  let ?rows = "freq_rows (words wc) (process_text wc s)"
  let ?S = "py_sorted_reverse Raw_Count ?rows"
  let ?T = "take 10 ?S"
  have t: "frequency_table (report wc s d) = Some ?T"
    by (simp add: frequency_table_report freq_data_def)
  have srt: "sorted_wrt (\<lambda>a b. Raw_Count b \<le> Raw_Count a) ?S"
    by (rule sorted_py_sorted_reverse)
  have st: "filter (\<lambda>r. Raw_Count r = k) ?S = filter (\<lambda>r. Raw_Count r = k) ?rows" for k
    by (rule stable_py_sorted_reverse)
  have pre: "\<exists>m. filter (\<lambda>r. Raw_Count r = k) ?T = take m (filter (\<lambda>r. Raw_Count r = k) ?rows)" for k
    using filter_take_prefix [of "\<lambda>r. Raw_Count r = k" 10 ?S] by (simp add: st)
  have srtT: "sorted_wrt (\<lambda>a b. Raw_Count b \<le> Raw_Count a) ?T"
    using srt by (rule sorted_wrt_take)
  have wds: "map Word ?rows = map fst (words wc)"
    by (simp add: freq_rows_def freq_row_def comp_def split_beta)
  show ?thesis
    apply (rule exI [of _ ?T], rule exI [of _ ?S])
    using t wds srt st pre srtT by (simp add: mset_py_sorted_reverse)
qed

theorem frequency_table_sorted_top10_witness:
  "\<exists>S. [\<lparr>Word = ''b'', Raw_Count = 5, Normalized_Frequency = 100\<rparr>,
      \<lparr>Word = ''i'', Raw_Count = 4, Normalized_Frequency = 80\<rparr>,
      \<lparr>Word = ''a'', Raw_Count = 3, Normalized_Frequency = 60\<rparr>,
      \<lparr>Word = ''c'', Raw_Count = 3, Normalized_Frequency = 60\<rparr>,
      \<lparr>Word = ''e'', Raw_Count = 2, Normalized_Frequency = 40\<rparr>,
      \<lparr>Word = ''f'', Raw_Count = 2, Normalized_Frequency = 40\<rparr>,
      \<lparr>Word = ''d'', Raw_Count = 1, Normalized_Frequency = 20\<rparr>,
      \<lparr>Word = ''g'', Raw_Count = 1, Normalized_Frequency = 20\<rparr>,
      \<lparr>Word = ''h'', Raw_Count = 1, Normalized_Frequency = 20\<rparr>,
      \<lparr>Word = ''j'', Raw_Count = 1, Normalized_Frequency = 20\<rparr>] = take 10 S
     \<and> mset S = mset (freq_rows (words demo_wc12) (process_text demo_wc12 ''''))"
proof -
  from frequency_table_sorted_top10 [of demo_wc12 "''''" blank]
  obtain T S where "frequency_table (report demo_wc12 '''' blank) = Some T" "T = take 10 S"
    "mset S = mset (freq_rows (words demo_wc12) (process_text demo_wc12 ''''))"
    by blast
  then show ?thesis by (auto simp: demo_table12)
qed

text \<open>
  C4. Every row of the table comes from an entry (word, weight) of the renderer's
  mapping, whose weights are floats within 0 and 1. Its normalized frequency is
  \<open>round(weight * 100, 2)\<close>: a whole number of hundredths, within half a hundredth
  of the float product \<open>weight * 100\<close> (itself within \<open>2^-47\<close> of the exact
  product), and within 0 and 100. Its raw count is the count of the word in
  \<open>process_text\<close> of the source text, and 0 when the word is not a key there.
\<close>

theorem frequency_row_values:
  assumes "frequency_table (report wc s d) = Some T" and "r \<in> set T"
    and "\<forall>(w, f)\<in>set (words wc). is_double f \<and> 0 \<le> f \<and> f \<le> 1"
  shows "\<exists>w f. (w, f) \<in> set (words wc) \<and> Word r = w
     \<and> Normalized_Frequency r = py_round (fl (f * 100)) 2
     \<and> (\<exists>k::int. Normalized_Frequency r = of_int k / 100)
     \<and> \<bar>Normalized_Frequency r - fl (f * 100)\<bar> \<le> 1 / 200
     \<and> \<bar>fl (f * 100) - f * 100\<bar> \<le> 1 / 2 ^ 47
     \<and> 0 \<le> Normalized_Frequency r \<and> Normalized_Frequency r \<le> 100
     \<and> Raw_Count r = (case process_text wc s w of None \<Rightarrow> 0 | Some n \<Rightarrow> n)"
proof -
  from assms(1,2)
  have "r \<in> set (take 10 (py_sorted_reverse Raw_Count (freq_rows (words wc) (process_text wc s))))"
    by (simp add: frequency_table_report freq_data_def)
  then have "r \<in> set (py_sorted_reverse Raw_Count (freq_rows (words wc) (process_text wc s)))"
    by (rule in_set_takeD)
  then have "r \<in> set (freq_rows (words wc) (process_text wc s))"
    by (simp add: py_sorted_reverse_def)
  then obtain w f where wf: "(w, f) \<in> set (words wc)"
    and r: "r = freq_row (process_text wc s) (w, f)"
    by (auto simp: freq_rows_def)
  from assms(3) wf have f: "0 \<le> f * 100" "f * 100 \<le> 100" by auto
  have nf: "Normalized_Frequency r = py_round (fl (f * 100)) 2"
    and wd: "Word r = w"
    and rc: "Raw_Count r = (case process_text wc s w of None \<Rightarrow> 0 | Some n \<Rightarrow> n)"
    by (simp_all add: r freq_row_def dict_get_def)
  have k: "\<exists>k::int. Normalized_Frequency r = of_int k / 100"
    by (simp add: nf py_round_def)
  have near: "\<bar>Normalized_Frequency r - fl (f * 100)\<bar> \<le> 1 / 200"
    unfolding nf by (rule py_round_near)
  have prod: "\<bar>fl (f * 100) - f * 100\<bar> \<le> 1 / 2 ^ 47"
    using f by (rule fl_near)
  have "0 \<le> fl (f * 100) \<and> fl (f * 100) \<le> 100"
    using f by (rule fl_range)
  then have rng: "0 \<le> Normalized_Frequency r \<and> Normalized_Frequency r \<le> 100"
    unfolding nf by (intro py_round_range) simp_all
  from wf nf wd rc k near prod rng show ?thesis by blast
qed

theorem frequency_row_values_witness:
  "frequency_table (report demo_wc160 [] blank) = Some
     [\<lparr>Word = ''cat'', Raw_Count = 160, Normalized_Frequency = 100\<rparr>,
      \<lparr>Word = ''dog'', Raw_Count = 23, Normalized_Frequency = 1437 / 100\<rparr>,
      \<lparr>Word = ''emu'', Raw_Count = 0, Normalized_Frequency = 62 / 100\<rparr>]
   \<and> words demo_wc160 = [(''cat'', 1), (''dog'', fl (23 / 160)), (''emu'', fl (1 / 160))]
   \<and> is_double 1 \<and> is_double (fl (23 / 160)) \<and> is_double (fl (1 / 160))
   \<and> 0 \<le> fl (23 / 160) \<and> fl (23 / 160) \<le> 1 \<and> 0 \<le> fl (1 / 160) \<and> fl (1 / 160) \<le> 1
   \<and> (\<exists>f. (''emu'', f) \<in> set (words demo_wc160)
         \<and> 62 / 100 = py_round (fl (f * 100)) 2
         \<and> \<bar>62 / 100 - fl (f * 100)\<bar> \<le> 1 / 200
         \<and> (0::int) = (case process_text demo_wc160 [] ''emu'' of None \<Rightarrow> 0 | Some n \<Rightarrow> n))"
proof -
  let ?r = "\<lparr>Word = ''emu'', Raw_Count = 0, Normalized_Frequency = 62 / 100\<rparr>"
  have m: "?r \<in> set [\<lparr>Word = ''cat'', Raw_Count = 160, Normalized_Frequency = 100\<rparr>,
      \<lparr>Word = ''dog'', Raw_Count = 23, Normalized_Frequency = 1437 / 100\<rparr>, ?r]"
    by simp
  from frequency_row_values [OF demo_table160 [of "[]" blank] m demo_weights160]
  have "\<exists>f. (''emu'', f) \<in> set (words demo_wc160)
         \<and> 62 / 100 = py_round (fl (f * 100)) 2
         \<and> \<bar>62 / 100 - fl (f * 100)\<bar> \<le> 1 / 200
         \<and> (0::int) = (case process_text demo_wc160 [] ''emu'' of None \<Rightarrow> 0 | Some n \<Rightarrow> n)"
    by simp blast
  moreover have "words demo_wc160 = [(''cat'', 1), (''dog'', fl (23 / 160)), (''emu'', fl (1 / 160))]"
    by (simp add: demo_wc160_def)
  moreover from demo_weights160
  have "is_double 1 \<and> is_double (fl (23 / 160)) \<and> is_double (fl (1 / 160))
      \<and> 0 \<le> fl (23 / 160) \<and> fl (23 / 160) \<le> 1 \<and> 0 \<le> fl (1 / 160) \<and> fl (1 / 160) \<le> 1"
    by (simp add: demo_wc160_def)
  ultimately show ?thesis
    using demo_table160 [of "[]" blank] by (simp only: simp_thms)
qed

section \<open>The exported file\<close>

subsection \<open>UTF-8\<close>

lemma utf8_div:
  assumes "128 \<le> (n::nat)" "n < 256"
  shows "n div 64 = 2 \<or> n div 64 = 3"
proof -
  have "128 div 64 \<le> n div 64" using assms(1) by (rule div_le_mono)
  moreover have "n div 64 \<le> 255 div 64" using assms(2) by (intro div_le_mono) simp
  ultimately have "2 \<le> n div 64" "n div 64 \<le> 3" by simp_all
  then show ?thesis by linarith
qed

lemma utf8_lo: "(of_char (char_of (128 + n mod 64)) :: nat) = 128 + (n::nat) mod 64"
proof -
  have "n mod 64 < 64" by simp
  then have "128 + n mod 64 < 256" by linarith
  then show ?thesis by (simp only: of_char_of mod_less)
qed

lemma utf8_back: "n div 64 * 64 + n mod 64 = (n::nat)"
  by simp

lemma decode_two_bytes:
  assumes "128 \<le> (n::nat)" "n < 256"
  shows "decode_utf8 (char_of (192 + n div 64) # char_of (128 + n mod 64) # bs)
     = map_option ((#) (char_of n)) (decode_utf8 bs)"
proof -
  from utf8_div [OF assms] show ?thesis
  proof
    assume d: "n div 64 = 2"
    have n: "128 + n mod 64 = n" using utf8_back [of n] d by simp
    have h: "(of_char (char_of (194::nat)) :: nat) = 194" by simp
    show ?thesis
      unfolding d by (simp add: utf8_lo h Let_def del: of_char_of) (simp only: n)
  next
    assume d: "n div 64 = 3"
    have n: "192 + n mod 64 = n" using utf8_back [of n] d by simp
    have h: "(of_char (char_of (195::nat)) :: nat) = 195" by simp
    show ?thesis
      unfolding d by (simp add: utf8_lo h Let_def del: of_char_of) (simp only: n)
  qed
qed

lemma decode_encode_char:
  "decode_utf8 (encode_char c @ bs) = map_option ((#) c) (decode_utf8 bs)"
proof (cases "(of_char c :: nat) < 128")
  case True
  then show ?thesis by (simp add: encode_char_def)
next
  case False
  then have "128 \<le> (of_char c :: nat)" by simp
  moreover have "(of_char c :: nat) < 256" by simp
  ultimately have "decode_utf8 (char_of (192 + (of_char c :: nat) div 64)
        # char_of (128 + (of_char c :: nat) mod 64) # bs)
     = map_option ((#) (char_of (of_char c :: nat))) (decode_utf8 bs)"
    by (rule decode_two_bytes)
  moreover have "encode_char c
      = [char_of (192 + (of_char c :: nat) div 64), char_of (128 + (of_char c :: nat) mod 64)]"
    using False by (simp add: encode_char_def Let_def)
  ultimately show ?thesis by simp
qed

lemma decode_encode_utf8: "decode_utf8 (encode_utf8 s) = Some s"
proof (induction s)
  case Nil
  then show ?case by (simp add: encode_utf8_def)
next
  case (Cons c s)
  have "encode_utf8 (c # s) = encode_char c @ encode_utf8 s"
    by (simp add: encode_utf8_def)
  then show ?case by (simp only: decode_encode_char Cons.IH) simp
qed

subsection \<open>Decimal numbers\<close>

lemma of_char_digit_char: "d < 10 \<Longrightarrow> (of_char (digit_char d) :: nat) = 48 + d"
  by (simp add: digit_char_def)

lemma is_digit_digit_char: "d < 10 \<Longrightarrow> is_digit (digit_char d)"
  by (simp add: is_digit_def of_char_digit_char)

lemma str_nat_digits: "list_all is_digit (str_nat n)"
proof (induction n rule: str_nat.induct)
  case (1 n)
  show ?case
  proof (cases "n < 10")
    case True
    then show ?thesis by (subst str_nat.simps) (simp add: is_digit_digit_char)
  next
    case False
    with 1 have "list_all is_digit (str_nat (n div 10))" by simp
    moreover have "is_digit (digit_char (n mod 10))" by (simp add: is_digit_digit_char)
    ultimately show ?thesis using False by (subst str_nat.simps) simp
  qed
qed

lemma str_nat_nonempty: "str_nat n \<noteq> []"
  by (subst str_nat.simps) simp

lemma digits_val_snoc: "digits_val (s @ [c]) = 10 * digits_val s + (of_char c - 48)"
  by (simp add: digits_val_def)

lemma digits_val_str_nat: "digits_val (str_nat n) = n"
proof (induction n rule: str_nat.induct)
  case (1 n)
  show ?case
  proof (cases "n < 10")
    case True
    then show ?thesis
      by (subst str_nat.simps) (simp add: digits_val_def of_char_digit_char)
  next
    case False
    with 1 have "digits_val (str_nat (n div 10)) = n div 10" by simp
    then show ?thesis using False
      by (subst str_nat.simps) (simp add: digits_val_snoc of_char_digit_char)
  qed
qed

lemma parse_nat_str_nat: "parse_nat (str_nat n) = Some n"
  by (simp add: parse_nat_def str_nat_nonempty str_nat_digits digits_val_str_nat)

lemma is_digit_not_minus: "is_digit c \<Longrightarrow> c \<noteq> CHR ''-''"
  by (auto simp: is_digit_def)

lemma is_digit_not_dot: "is_digit c \<Longrightarrow> c \<noteq> CHR ''.''"
  by (auto simp: is_digit_def)

lemma str_nat_Cons: "\<exists>c t. str_nat n = c # t \<and> is_digit c"
proof (cases "str_nat n")
  case Nil
  then show ?thesis by (simp add: str_nat_nonempty)
next
  case (Cons c t)
  moreover have "is_digit c" using str_nat_digits [of n] Cons by simp
  ultimately show ?thesis by blast
qed

lemma parse_int_str_int: "parse_int (str_int i) = Some i"
proof (cases "i < 0")
  case True
  then show ?thesis by (simp add: str_int_def parse_int_def parse_nat_str_nat)
next
  case False
  obtain c t where ct: "str_nat (nat i) = c # t" "is_digit c"
    using str_nat_Cons by blast
  have "parse_int (str_nat (nat i)) = map_option int (parse_nat (str_nat (nat i)))"
    using ct is_digit_not_minus by (simp add: parse_int_def)
  with False show ?thesis by (simp add: str_int_def parse_nat_str_nat)
qed

lemma float_repr_frac:
  "float_repr v =
     (if v < 0 then ''-'' else []) @ str_nat (nat \<lfloor>\<bar>v\<bar> * 100\<rfloor> div 100) @ ''.''
       @ frac_digits (nat \<lfloor>\<bar>v\<bar> * 100\<rfloor>)"
  by (simp add: float_repr_def Let_def)

lemma tens_lt_10: "(h::nat) mod 100 div 10 < 10"
proof -
  have "h mod 100 < 100" by simp
  then show ?thesis by (simp add: div_less_iff_less_mult)
qed

lemma frac_digits_parse:
  "parse_nat (frac_digits h)
     = Some (if h mod 10 = 0 then h mod 100 div 10 else 10 * (h mod 100 div 10) + h mod 10)"
  by (simp add: frac_digits_def parse_nat_def is_digit_digit_char tens_lt_10 digits_val_def
      of_char_digit_char)

lemma mod_100_split: "(h::nat) mod 100 = 10 * (h mod 100 div 10) + h mod 10"
proof -
  have "h mod 100 = 10 * (h mod 100 div 10) + h mod 100 mod 10" by simp
  moreover have "h mod 100 mod 10 = h mod 10" by (simp add: mod_mod_cancel)
  ultimately show ?thesis by simp
qed

lemma frac_value:
  "real (h div 100)
     + real (if h mod 10 = 0 then h mod 100 div 10 else 10 * (h mod 100 div 10) + h mod 10)
       / 10 ^ length (frac_digits h)
   = real h / 100"
proof -
  have h: "real h = 100 * real (h div 100) + real (h mod 100)"
    by (metis of_nat_add of_nat_mult of_nat_numeral div_mult_mod_eq mult.commute)
  show ?thesis
  proof (cases "h mod 10 = 0")
    case True
    then have "real (h mod 100) = 10 * real (h mod 100 div 10)"
      using mod_100_split [of h] by (metis add.right_neutral of_nat_mult of_nat_numeral)
    with True h show ?thesis by (simp add: frac_digits_def)
  next
    case False
    have "real (10 * (h mod 100 div 10) + h mod 10) = real (h mod 100)"
      using mod_100_split [of h] by simp
    with False h show ?thesis by (simp add: frac_digits_def del: of_nat_add of_nat_mult)
  qed
qed

lemma split_at_dot:
  "takeWhile (\<lambda>c. c \<noteq> CHR ''.'') (str_nat a @ CHR ''.'' # fr) = str_nat a"
  "dropWhile (\<lambda>c. c \<noteq> CHR ''.'') (str_nat a @ CHR ''.'' # fr) = CHR ''.'' # fr"
proof -
  have d: "\<And>c. c \<in> set (str_nat a) \<Longrightarrow> c \<noteq> CHR ''.''"
    using str_nat_digits [of a] is_digit_not_dot by (auto simp: list_all_iff)
  show "takeWhile (\<lambda>c. c \<noteq> CHR ''.'') (str_nat a @ CHR ''.'' # fr) = str_nat a"
    using d by (simp add: takeWhile_append2)
  show "dropWhile (\<lambda>c. c \<noteq> CHR ''.'') (str_nat a @ CHR ''.'' # fr) = CHR ''.'' # fr"
    using d by (simp add: dropWhile_append2)
qed

lemma parse_float_unsigned:
  assumes "parse_nat fr = Some b"
  shows "parse_float (str_nat a @ CHR ''.'' # fr) = Some (real a + real b / 10 ^ length fr)"
proof -
  obtain c t where ct: "str_nat a = c # t" "is_digit c"
    using str_nat_Cons by blast
  then have "c \<noteq> CHR ''-''" using is_digit_not_minus by blast
  then have neg: "hd (str_nat a @ CHR ''.'' # fr) \<noteq> CHR ''-''"
    using ct by simp
  show ?thesis
    by (simp add: parse_float_def Let_def neg split_at_dot parse_nat_str_nat assms)
qed

lemma parse_float_signed:
  assumes "parse_nat fr = Some b"
  shows "parse_float (CHR ''-'' # str_nat a @ CHR ''.'' # fr)
     = Some (- (real a + real b / 10 ^ length fr))"
  by (simp add: parse_float_def Let_def split_at_dot parse_nat_str_nat assms)

lemma parse_float_repr:
  assumes "v = of_int k / 100"
  shows "parse_float (float_repr v) = Some v"
proof -
  define h where "h = nat \<bar>k\<bar>"
  have "\<bar>v\<bar> * 100 = of_int \<bar>k\<bar>" by (simp add: assms)
  then have "\<lfloor>\<bar>v\<bar> * 100\<rfloor> = \<bar>k\<bar>" by (simp only: floor_of_int)
  then have fl: "nat \<lfloor>\<bar>v\<bar> * 100\<rfloor> = h" by (simp only: h_def)
  have av: "real h / 100 = \<bar>v\<bar>" by (simp add: h_def assms)
  have val: "real (h div 100)
     + real (if h mod 10 = 0 then h mod 100 div 10 else 10 * (h mod 100 div 10) + h mod 10)
       / 10 ^ length (frac_digits h) = \<bar>v\<bar>"
    by (simp only: frac_value av)
  show ?thesis
  proof (cases "v < 0")
    case True
    have "parse_float (float_repr v) = Some (- \<bar>v\<bar>)"
      unfolding float_repr_frac fl
      using True parse_float_signed [OF frac_digits_parse, of "h div 100" h]
      by (simp only: val if_True append_Cons append_Nil)
    with True show ?thesis by simp
  next
    case False
    have "parse_float (float_repr v) = Some \<bar>v\<bar>"
      unfolding float_repr_frac fl
      using False parse_float_unsigned [OF frac_digits_parse, of "h div 100" h]
      by (simp only: val if_False append_Cons append_Nil)
    with False show ?thesis by simp
  qed
qed

subsection \<open>Reading what the writer wrote\<close>

lemma read_unquoted_comma:
  assumes "\<forall>c\<in>set s. c \<noteq> CHR '','' \<and> c \<noteq> CHR 0x0A"
  shows "csv_read InUnquoted cur rw acc (s @ CHR '','' # rest)
     = csv_read FieldStart [] ((rev cur @ s) # rw) acc rest"
  using assms by (induction s arbitrary: cur) simp_all

lemma read_unquoted_nl:
  assumes "\<forall>c\<in>set s. c \<noteq> CHR '','' \<and> c \<noteq> CHR 0x0A"
  shows "csv_read InUnquoted cur rw acc (s @ CHR 0x0A # rest)
     = csv_read FieldStart [] [] (rev ((rev cur @ s) # rw) # acc) rest"
  using assms by (induction s arbitrary: cur) simp_all

lemma read_quoted:
  "csv_read InQuoted cur rw acc (csv_escape s @ CHR 0x22 # rest)
     = csv_read QuoteInQuoted (rev s @ cur) rw acc rest"
  by (induction s arbitrary: cur) simp_all

lemma plain_field:
  assumes "\<not> list_ex csv_special s"
  shows "\<forall>c\<in>set s. c \<noteq> CHR '','' \<and> c \<noteq> CHR 0x0A \<and> c \<noteq> CHR 0x22"
  using assms by (auto simp: list_ex_iff csv_special_def)

lemma read_field_comma:
  "csv_read FieldStart cur rw acc (csv_field f @ CHR '','' # rest)
     = csv_read FieldStart [] (f # rw) acc rest"
proof (cases "list_ex csv_special f")
  case True
  then show ?thesis by (simp add: csv_field_def read_quoted)
next
  case False
  note p = plain_field [OF False]
  show ?thesis
  proof (cases f)
    case Nil
    then show ?thesis by (simp add: csv_field_def)
  next
    case (Cons c t)
    have "csv_read InUnquoted [c] rw acc (t @ CHR '','' # rest)
        = csv_read FieldStart [] ((rev [c] @ t) # rw) acc rest"
      using p Cons by (intro read_unquoted_comma) simp
    with p Cons False show ?thesis by (simp add: csv_field_def)
  qed
qed

lemma read_field_nl:
  assumes "f \<noteq> [] \<or> rw \<noteq> []"
  shows "csv_read FieldStart cur rw acc (csv_field f @ CHR 0x0A # rest)
     = csv_read FieldStart [] [] (rev (f # rw) # acc) rest"
proof (cases "list_ex csv_special f")
  case True
  then show ?thesis by (simp add: csv_field_def read_quoted)
next
  case False
  note p = plain_field [OF False]
  show ?thesis
  proof (cases f)
    case Nil
    with assms show ?thesis by (simp add: csv_field_def)
  next
    case (Cons c t)
    have "csv_read InUnquoted [c] rw acc (t @ CHR 0x0A # rest)
        = csv_read FieldStart [] [] (rev ((rev [c] @ t) # rw) # acc) rest"
      using p Cons by (intro read_unquoted_nl) simp
    with p Cons False show ?thesis by (simp add: csv_field_def)
  qed
qed

lemma writerow3:
  "writerow [a, b, c] = csv_field a @ CHR '','' # csv_field b @ CHR '','' # csv_field c @ [CHR 0x0A]"
  by (simp add: writerow_def)

lemma read_row3:
  "csv_read FieldStart cur [] acc (writerow [a, b, c] @ rest)
     = csv_read FieldStart [] [] ([a, b, c] # acc) rest"
  by (simp add: writerow3 read_field_comma read_field_nl)

lemma read_rows3:
  "csv_read FieldStart cur [] acc (concat (map (\<lambda>r. writerow [f r, g r, h r]) rs))
     = Some (rev acc @ map (\<lambda>r. [f r, g r, h r]) rs)"
proof (induction rs arbitrary: cur acc)
  case Nil
  then show ?case by simp
next
  case (Cons r rs)
  show ?case by (simp add: read_row3 Cons.IH)
qed

lemma csv_download_report:
  "csv_download (report wc s d)
     = Some (encode_utf8 (to_csv (DataFrame (freq_data (words wc) (process_text wc s)))))"
  by (simp add: report_def Let_def)

lemma to_csv_DataFrame:
  assumes "T \<noteq> []"
  shows "to_csv (DataFrame T) = writerow csv_header @ concat (map (\<lambda>r. writerow (row_cells r)) T)"
  using assms by (simp add: to_csv_def DataFrame_def csv_header_def row_cells_def comp_def)

lemma header_line: "writerow csv_header = ''Word,Raw Count,Normalized Frequency (%)'' @ [CHR 0x0A]"
  by (simp add: writerow_def csv_header_def csv_field_def csv_special_def)

lemma read_table:
  "csv_read FieldStart [] [] [] (writerow csv_header @ concat (map (\<lambda>r. writerow (row_cells r)) T))
     = Some (csv_header # map row_cells T)"
proof -
  have h: "csv_read FieldStart [] [] [] (writerow csv_header @ rest)
      = csv_read FieldStart [] [] [csv_header] rest" for rest
    unfolding csv_header_def by (rule read_row3)
  have "csv_read FieldStart [] [] [csv_header]
       (concat (map (\<lambda>r. writerow [Word r, str_int (Raw_Count r), float_repr (Normalized_Frequency r)]) T))
      = Some (rev [csv_header]
          @ map (\<lambda>r. [Word r, str_int (Raw_Count r), float_repr (Normalized_Frequency r)]) T)"
    by (rule read_rows3)
  then show ?thesis by (simp add: h row_cells_def)
qed

lemma parse_row_cells:
  assumes "Normalized_Frequency r = of_int k / 100"
  shows "parse_row (row_cells r) = Some r"
  using parse_float_repr [OF assms]
  by (simp add: parse_row_def row_cells_def parse_int_str_int)

lemma those_map_Some:
  assumes "\<And>x. x \<in> set xs \<Longrightarrow> f (g x) = Some x"
  shows "those (map f (map g xs)) = Some xs"
  using assms by (induction xs) simp_all

lemma read_csv_to_csv:
  assumes "T \<noteq> []" and "\<And>r. r \<in> set T \<Longrightarrow> \<exists>k::int. Normalized_Frequency r = of_int k / 100"
  shows "read_csv (encode_utf8 (to_csv (DataFrame T))) = Some T"
proof -
  have "those (map parse_row (map row_cells T)) = Some T"
    using assms(2) parse_row_cells by (intro those_map_Some) blast
  then show ?thesis
    by (simp add: read_csv_def decode_encode_utf8 to_csv_DataFrame [OF assms(1)] read_table)
qed

lemma freq_data_hundredths:
  assumes "r \<in> set (freq_data items raw)"
  shows "\<exists>k::int. Normalized_Frequency r = of_int k / 100"
proof -
  from assms have "r \<in> set (py_sorted_reverse Raw_Count (freq_rows items raw))"
    unfolding freq_data_def by (rule in_set_takeD)
  then have "r \<in> set (freq_rows items raw)"
    by (simp add: py_sorted_reverse_def)
  then show ?thesis
    by (auto simp: freq_rows_def freq_row_def py_round_def)
qed

lemma freq_data_nonempty:
  assumes "items \<noteq> []"
  shows "freq_data items raw \<noteq> []"
proof -
  have "length (py_sorted_reverse Raw_Count (freq_rows items raw)) = length items"
    by (simp add: py_sorted_reverse_def freq_rows_def)
  with assms have "py_sorted_reverse Raw_Count (freq_rows items raw) \<noteq> []"
    by (metis length_0_conv)
  then show ?thesis by (simp add: freq_data_def)
qed

lemma demo_csv3:
  "csv_download (report demo_wc3 s d) = Some
     ''Word,Raw Count,Normalized Frequency (%)\<newline>cat,3,100.0\<newline>dog,1,33.33\<newline>emu,0,66.67\<newline>''"
proof -
  have t: "freq_data (words demo_wc3) (process_text demo_wc3 s) =
     [\<lparr>Word = ''cat'', Raw_Count = 3, Normalized_Frequency = 100\<rparr>,
      \<lparr>Word = ''dog'', Raw_Count = 1, Normalized_Frequency = 3333 / 100\<rparr>,
      \<lparr>Word = ''emu'', Raw_Count = 0, Normalized_Frequency = 6667 / 100\<rparr>]"
    using demo_table3 [of s d] by (simp add: frequency_table_report)
  have "to_csv (DataFrame
     [\<lparr>Word = ''cat'', Raw_Count = 3, Normalized_Frequency = 100\<rparr>,
      \<lparr>Word = ''dog'', Raw_Count = 1, Normalized_Frequency = 3333 / 100\<rparr>,
      \<lparr>Word = ''emu'', Raw_Count = 0, Normalized_Frequency = 6667 / 100\<rparr>])
    = ''Word,Raw Count,Normalized Frequency (%)\<newline>cat,3,100.0\<newline>dog,1,33.33\<newline>emu,0,66.67\<newline>''"
    by (simp add: to_csv_def DataFrame_def writerow_def csv_field_def csv_special_def
        float_repr_def frac_digits_def str_int_def str_nat.simps digit_char_def char_of_def
        bit_simps)
  then show ?thesis
    by (simp add: csv_download_report t encode_utf8_def encode_char_def)
qed

text \<open>
  C5. After a render with at least one word (renderer weights within 0 and 1), the
  exported file is the UTF-8 encoding of the header line
  \<open>Word,Raw Count,Normalized Frequency (%)\<close> followed by one record per row of the
  on-screen table, at most ten, and reading the file back gives exactly the rows of
  the on-screen table, in the same order.
\<close>

theorem csv_round_trip:
  assumes "words wc \<noteq> []" and "\<forall>(w, f)\<in>set (words wc). 0 \<le> f \<and> f \<le> 1"
  shows "\<exists>T csv. frequency_table (report wc s d) = Some T
     \<and> csv_download (report wc s d) = Some csv
     \<and> length T \<le> 10
     \<and> decode_utf8 csv = Some (''Word,Raw Count,Normalized Frequency (%)'' @ [CHR 0x0A]
          @ concat (map (\<lambda>r. writerow (row_cells r)) T))
     \<and> read_csv csv = Some T"
proof -
  let ?T = "freq_data (words wc) (process_text wc s)"
  let ?csv = "encode_utf8 (to_csv (DataFrame ?T))"
  have ne: "?T \<noteq> []" using assms(1) by (rule freq_data_nonempty)
  have len: "length ?T \<le> 10" by (simp add: freq_data_def)
  have dec: "decode_utf8 ?csv = Some (''Word,Raw Count,Normalized Frequency (%)'' @ [CHR 0x0A]
          @ concat (map (\<lambda>r. writerow (row_cells r)) ?T))"
    by (simp only: decode_encode_utf8 to_csv_DataFrame [OF ne] header_line append_assoc)
  have rd: "read_csv ?csv = Some ?T"
    using ne freq_data_hundredths by (rule read_csv_to_csv)
  from len dec rd show ?thesis
    by (intro exI [of _ ?T] exI [of _ ?csv]) (simp add: frequency_table_report csv_download_report)
qed

theorem csv_round_trip_witness:
  "read_csv
     ''Word,Raw Count,Normalized Frequency (%)\<newline>cat,3,100.0\<newline>dog,1,33.33\<newline>emu,0,66.67\<newline>''
   = Some [\<lparr>Word = ''cat'', Raw_Count = 3, Normalized_Frequency = 100\<rparr>,
           \<lparr>Word = ''dog'', Raw_Count = 1, Normalized_Frequency = 3333 / 100\<rparr>,
           \<lparr>Word = ''emu'', Raw_Count = 0, Normalized_Frequency = 6667 / 100\<rparr>]"
proof -
  have 1: "words demo_wc3 \<noteq> []" by (simp add: demo_wc3_def)
  have 2: "\<forall>(w, f)\<in>set (words demo_wc3). 0 \<le> f \<and> f \<le> 1"
    by (simp add: demo_wc3_def float_eval)
  from csv_round_trip [OF 1 2, of "''''" blank]
  obtain T csv where "frequency_table (report demo_wc3 '''' blank) = Some T"
    "csv_download (report demo_wc3 '''' blank) = Some csv" "read_csv csv = Some T"
    by blast
  then show ?thesis by (simp add: demo_table3 demo_csv3)
qed

end
